theory Spec2Isabelle
  imports Complex_Main
begin

section \<open>HubSpot API service: rate control and paginated extraction\<close>

text \<open>
  A shallow embedding of \<^verbatim>\<open>services/api_service.py\<close> (class HubSpotAPIService).
  Wall-clock readings (Python floats returned by \<^verbatim>\<open>time.time()\<close>) are reals, as
  every double is one; the rounding of the floating-point subtractions of the rate
  controller is a parameter of \<open>wait_for_rate_limit_rounded\<close>, and
  \<open>wait_for_rate_limit\<close> is its instance in exact arithmetic, used where nothing
  depends on the rounding. Everything the service reads from its environment (the clock, the
  duration a sleep really takes, the HTTP reply) is an explicit input; everything it
  does to its environment (sleeping, sending a request, yielding a record, calling the
  checkpoint callback) is recorded, in program order, in a trace of events.
\<close>

subsection \<open>Values, errors and events\<close>

text \<open>
  Python values that come out of \<^verbatim>\<open>response.json()\<close>. JSON null is Python's None,
  an object is a dict (an association list read with \<open>map_of\<close>). Non-integer numbers do
  not occur in what the service inspects and are left out.
\<close>

datatype json =
    JNull
  | JBool bool
  | JNum int
  | JStr string
  | JArr "json list"
  | JObj "(string \<times> json) list"

text \<open>
  The exceptions that can leave the service. The first three are the service's own
  classes (HubSpotRateLimitError and HubSpotAuthenticationError are subclasses of
  HubSpotAPIError); messages are not modelled, except that the rate-limit error keeps
  the number of seconds that its message quotes. The rest are Python built-ins raised
  by operations on ill-typed values.
\<close>

datatype error =
    HubSpotRateLimitError int
  | HubSpotAuthenticationError
  | HubSpotAPIError
  | KeyError
  | TypeError
  | AttributeError
  | ValueError
  | ZeroDivisionError

datatype event =
    Slept real
  | Sent "(string \<times> json) list"
  | Yielded json
  | Checkpoint int int

subsection \<open>The rate controller\<close>

definition RATE_LIMIT_MAX :: nat where
  "RATE_LIMIT_MAX = 150"

definition RATE_LIMIT_WINDOW :: real where
  "RATE_LIMIT_WINDOW = 10"

text \<open>The list comprehension \<^verbatim>\<open>[t for t in self._request_times if t > cutoff_time]\<close>.\<close>

definition active_after :: "real \<Rightarrow> real list \<Rightarrow> real list" where
  "active_after cutoff_time request_times = filter (\<lambda>t. t > cutoff_time) request_times"

text \<open>
  \<^verbatim>\<open>_wait_for_rate_limit\<close>. \<open>now\<close> is the reading of \<^verbatim>\<open>time.time()\<close> on entry.
  When the function sleeps, the second reading of the clock is
  \<open>now + wait_time + oversleep\<close>: \<open>oversleep\<close> is by how much the clock has moved beyond
  the requested duration when \<^verbatim>\<open>time.sleep\<close> returns. The result is the new value of
  \<^verbatim>\<open>self._request_times\<close> and the sleeps performed. The read
  \<^verbatim>\<open>self._request_times[0]\<close> happens only under \<open>length \<ge> 150\<close>, so the list is not
  empty there. The subtractions are exact here; \<open>wait_for_rate_limit_rounded\<close> below
  is the same function with their rounding made explicit.
\<close>

definition wait_for_rate_limit :: "real \<Rightarrow> real \<Rightarrow> real list \<Rightarrow> real list \<times> event list" where
  "wait_for_rate_limit now oversleep request_times =
     (let cutoff_time = now - RATE_LIMIT_WINDOW;
          request_times1 = active_after cutoff_time request_times
      in if length request_times1 \<ge> RATE_LIMIT_MAX then
           (let wait_time = RATE_LIMIT_WINDOW - (now - request_times1 ! 0)
            in if wait_time > 0 then
                 (let now2 = now + wait_time + oversleep;
                      cutoff_time2 = now2 - RATE_LIMIT_WINDOW;
                      request_times2 = active_after cutoff_time2 request_times1
                  in (request_times2 @ [now2], [Slept wait_time]))
               else (request_times1 @ [now], []))
         else (request_times1 @ [now], []))"

text \<open>
  A sequence of admissions on one service instance: each element gives the clock
  reading on entry and the oversleep of that call. The result is the value of
  \<^verbatim>\<open>self._request_times\<close> after the last of them.
\<close>

fun admit_all :: "(real \<times> real) list \<Rightarrow> real list \<Rightarrow> real list" where
  "admit_all [] request_times = request_times"
| "admit_all ((now, oversleep) # rest) request_times =
     admit_all rest (fst (wait_for_rate_limit now oversleep request_times))"

text \<open>
  \<^verbatim>\<open>_wait_for_rate_limit\<close> with the floating-point arithmetic spelled out. Each of
  the four subtractions of the source (\<^verbatim>\<open>now - self.RATE_LIMIT_WINDOW\<close> twice,
  \<^verbatim>\<open>now - self._request_times[0]\<close> and \<^verbatim>\<open>self.RATE_LIMIT_WINDOW - (...)\<close>)
  delivers the exact difference rounded to a double: \<open>rnd\<close> is that rounding. The
  comparisons are exact. The second clock reading is \<open>now + wait_time + oversleep\<close>,
  with \<open>wait_time\<close> the duration that was handed to \<^verbatim>\<open>time.sleep\<close>; this sum
  describes the clock, it is not computed by the program.
\<close>

definition wait_for_rate_limit_rounded ::
  "(real \<Rightarrow> real) \<Rightarrow> real \<Rightarrow> real \<Rightarrow> real list \<Rightarrow> real list \<times> event list" where
  "wait_for_rate_limit_rounded rnd now oversleep request_times =
     (let cutoff_time = rnd (now - RATE_LIMIT_WINDOW);
          request_times1 = active_after cutoff_time request_times
      in if length request_times1 \<ge> RATE_LIMIT_MAX then
           (let wait_time = rnd (RATE_LIMIT_WINDOW - rnd (now - request_times1 ! 0))
            in if wait_time > 0 then
                 (let now2 = now + wait_time + oversleep;
                      cutoff_time2 = rnd (now2 - RATE_LIMIT_WINDOW);
                      request_times2 = active_after cutoff_time2 request_times1
                  in (request_times2 @ [now2], [Slept wait_time]))
               else (request_times1 @ [now], []))
         else (request_times1 @ [now], []))"

fun admit_all_rounded :: "(real \<Rightarrow> real) \<Rightarrow> (real \<times> real) list \<Rightarrow> real list \<Rightarrow> real list" where
  "admit_all_rounded rnd [] request_times = request_times"
| "admit_all_rounded rnd ((now, oversleep) # rest) request_times =
     admit_all_rounded rnd rest (fst (wait_for_rate_limit_rounded rnd now oversleep request_times))"

text \<open>The timestamps of a list that fall in the trailing window ending at \<open>t\<close>.\<close>

definition in_trailing_window :: "real \<Rightarrow> real list \<Rightarrow> real list" where
  "in_trailing_window t request_times =
     filter (\<lambda>x. t - RATE_LIMIT_WINDOW < x \<and> x \<le> t) request_times"

text \<open>
  \<^verbatim>\<open>get_rate_limit_status\<close>: the returned dict has four fixed keys and is a record here.
  The function returns the status together with the value of
  \<^verbatim>\<open>self._request_times\<close> when it is done.
\<close>

record rate_limit_status =
  requests_in_window :: int
  max_requests :: int
  window_seconds :: real
  remaining :: int

definition get_rate_limit_status :: "real \<Rightarrow> real list \<Rightarrow> rate_limit_status \<times> real list" where
  "get_rate_limit_status now request_times =
     (let cutoff_time = now - RATE_LIMIT_WINDOW;
          active_requests = active_after cutoff_time request_times
      in (\<lparr> requests_in_window = int (length active_requests),
            max_requests = int RATE_LIMIT_MAX,
            window_seconds = RATE_LIMIT_WINDOW,
            remaining = int RATE_LIMIT_MAX - int (length active_requests) \<rparr>,
          request_times))"

subsection \<open>Python operations on parsed values\<close>

text \<open>Truth value of a Python object, as \<^verbatim>\<open>if after:\<close> tests it.\<close>

fun truthy :: "json \<Rightarrow> bool" where
  "truthy JNull = False"
| "truthy (JBool b) = b"
| "truthy (JNum n) = (n \<noteq> 0)"
| "truthy (JStr s) = (s \<noteq> [])"
| "truthy (JArr xs) = (xs \<noteq> [])"
| "truthy (JObj kvs) = (kvs \<noteq> [])"

text \<open>\<^verbatim>\<open>x.get(key, default)\<close>: only a dict has the method.\<close>

fun dict_get :: "json \<Rightarrow> string \<Rightarrow> json \<Rightarrow> error + json" where
  "dict_get (JObj kvs) key dflt = Inr (case map_of kvs key of None \<Rightarrow> dflt | Some v \<Rightarrow> v)"
| "dict_get _ key dflt = Inl AttributeError"

text \<open>\<^verbatim>\<open>len(x)\<close>.\<close>

fun py_len :: "json \<Rightarrow> error + nat" where
  "py_len (JArr xs) = Inr (length xs)"
| "py_len (JStr s) = Inr (length s)"
| "py_len (JObj kvs) = Inr (length kvs)"
| "py_len _ = Inl TypeError"

text \<open>
  \<^verbatim>\<open>for deal in x\<close>: a list gives its elements, a string its characters (as
  one-character strings), a dict its keys; anything else is not iterable.
\<close>

fun py_iter :: "json \<Rightarrow> error + json list" where
  "py_iter (JArr xs) = Inr xs"
| "py_iter (JStr s) = Inr (map (\<lambda>c. JStr [c]) s)"
| "py_iter (JObj kvs) = Inr (map (\<lambda>kv. JStr (fst kv)) kvs)"
| "py_iter _ = Inl TypeError"

fun starts_with :: "string \<Rightarrow> string \<Rightarrow> bool" where
  "starts_with [] s = True"
| "starts_with (c # cs) [] = False"
| "starts_with (c # cs) (d # ds) = (c = d \<and> starts_with cs ds)"

fun has_substring :: "string \<Rightarrow> string \<Rightarrow> bool" where
  "has_substring k [] = (k = [])"
| "has_substring k (d # ds) = (starts_with k (d # ds) \<or> has_substring k ds)"

text \<open>
  \<^verbatim>\<open>key in x\<close> for a string key: key membership in a dict, element membership in a
  list, substring test in a string; a TypeError on None, numbers and booleans.
\<close>

fun py_contains :: "string \<Rightarrow> json \<Rightarrow> error + bool" where
  "py_contains key (JObj kvs) = Inr (key \<in> set (map fst kvs))"
| "py_contains key (JArr xs) = Inr (JStr key \<in> set xs)"
| "py_contains key (JStr s) = Inr (has_substring key s)"
| "py_contains key _ = Inl TypeError"

text \<open>
  \<^verbatim>\<open>x[key]\<close> for a string key: a dict lookup that raises KeyError on a missing key;
  a TypeError on every other kind of value (lists and strings want integer indices,
  the rest cannot be subscripted).
\<close>

fun py_getitem :: "json \<Rightarrow> string \<Rightarrow> error + json" where
  "py_getitem (JObj kvs) key = (case map_of kvs key of None \<Rightarrow> Inl KeyError | Some v \<Rightarrow> Inr v)"
| "py_getitem _ key = Inl TypeError"

text \<open>\<^verbatim>\<open>sep.join(xs)\<close>.\<close>

fun join :: "string \<Rightarrow> string list \<Rightarrow> string" where
  "join sep [] = []"
| "join sep [x] = x"
| "join sep (x # y # ys) = x @ sep @ join sep (y # ys)"

text \<open>
  \<^verbatim>\<open>int(s)\<close> on a string of ASCII characters: surrounding whitespace is stripped, one
  sign is allowed, then decimal digits, with single underscores allowed between digits.
  None stands for ValueError.
\<close>

definition is_space :: "char \<Rightarrow> bool" where
  "is_space c = (let n = (of_char c :: nat) in (9 \<le> n \<and> n \<le> 13) \<or> (28 \<le> n \<and> n \<le> 32))"

definition is_digit :: "char \<Rightarrow> bool" where
  "is_digit c = (let n = (of_char c :: nat) in 48 \<le> n \<and> n \<le> 57)"

definition strip :: "string \<Rightarrow> string" where
  "strip s = rev (dropWhile is_space (rev (dropWhile is_space s)))"

fun parse_digits :: "string \<Rightarrow> nat \<Rightarrow> nat option" where
  "parse_digits [] acc = Some acc"
| "parse_digits (c # cs) acc =
     (if is_digit c then parse_digits cs (10 * acc + (of_char c - 48))
      else if c = CHR ''_'' \<and> cs \<noteq> [] \<and> is_digit (hd cs) then parse_digits cs acc
      else None)"

definition parse_unsigned :: "string \<Rightarrow> nat option" where
  "parse_unsigned s = (case s of [] \<Rightarrow> None
                       | c # cs \<Rightarrow> if is_digit c then parse_digits s 0 else None)"

definition python_int :: "string \<Rightarrow> int option" where
  "python_int s =
     (case strip s of
        [] \<Rightarrow> None
      | c # cs \<Rightarrow>
          if c = CHR ''-'' then map_option (\<lambda>n. - int n) (parse_unsigned cs)
          else if c = CHR ''+'' then map_option int (parse_unsigned cs)
          else map_option int (parse_unsigned (c # cs)))"

subsection \<open>The HTTP exchange\<close>

text \<open>
  What \<^verbatim>\<open>requests.get\<close> can do: raise Timeout, raise another RequestException (a
  connection error, say), or return a response. The body is the value
  \<^verbatim>\<open>response.json()\<close> parses, None when it is not JSON. Header names are looked up
  without regard to case, as the header dict of the requests library does.
\<close>

record response =
  status_code :: int
  headers :: "(string \<times> string) list"
  body :: "json option"

datatype reply = Timeout | RequestException | Response response

definition lower_char :: "char \<Rightarrow> char" where
  "lower_char c = (let n = (of_char c :: nat) in if 65 \<le> n \<and> n \<le> 90 then char_of (n + 32) else c)"

definition header_get :: "(string \<times> string) list \<Rightarrow> string \<Rightarrow> string option" where
  "header_get hs name =
     map_option snd (find (\<lambda>h. map lower_char (fst h) = map lower_char name) hs)"

text \<open>
  The environment of one call of \<^verbatim>\<open>get_deals\<close>: the clock reading on entry of the
  rate controller, the oversleep of its sleep, and what the HTTP request does.
\<close>

record call =
  clock_now :: real
  clock_oversleep :: real
  http_reply :: reply

definition DEFAULT_PROPERTIES :: "string list" where
  "DEFAULT_PROPERTIES =
     [''dealname'', ''amount'', ''dealstage'', ''pipeline'', ''closedate'',
      ''createdate'', ''hs_lastmodifieddate'', ''hubspot_owner_id'',
      ''description'', ''dealtype'', ''hs_priority'',
      ''num_associated_contacts'', ''num_associated_companies'',
      ''hs_is_closed'', ''hs_is_closed_won'',
      ''hs_forecast_amount'', ''hs_forecast_probability'']"

text \<open>
  The query parameters \<^verbatim>\<open>get_deals\<close> builds (lines 168 to 185). \<open>after\<close> is JNull
  for Python's None. The dict is an association list in insertion order.
\<close>

definition request_params :: "int \<Rightarrow> json \<Rightarrow> string list option \<Rightarrow> bool \<Rightarrow> (string \<times> json) list" where
  "request_params limit after properties archived =
     (let properties1 = (case properties of None \<Rightarrow> DEFAULT_PROPERTIES | Some ps \<Rightarrow> ps);
          params = [(''limit'', JNum (min limit 100)),
                    (''properties'', JStr (join '','' properties1)),
                    (''archived'', JStr (if archived then ''true'' else ''false''))]
      in if truthy after then params @ [(''after'', after)] else params)"

text \<open>
  \<^verbatim>\<open>int(response.headers.get('Retry-After', 10))\<close>: None stands for the ValueError of
  a header that is not an integer.
\<close>

definition retry_after_seconds :: "(string \<times> string) list \<Rightarrow> int option" where
  "retry_after_seconds hs =
     (case header_get hs ''Retry-After'' of None \<Rightarrow> Some 10 | Some v \<Rightarrow> python_int v)"

text \<open>
  Lines 187 to 220 of \<^verbatim>\<open>get_deals\<close>: what the function returns or raises for each
  reply. \<^verbatim>\<open>raise_for_status\<close> raises HTTPError, a RequestException, for a status from
  400 to 599, and the handler turns it into HubSpotAPIError; the decoding error of
  \<^verbatim>\<open>response.json()\<close> is a RequestException too (requests 2.27 and later). The log
  line evaluates \<^verbatim>\<open>len(data.get('results', []))\<close>, which can raise.
\<close>

definition handle_reply :: "reply \<Rightarrow> error + json" where
  "handle_reply r =
     (case r of
        Timeout \<Rightarrow> Inl HubSpotAPIError
      | RequestException \<Rightarrow> Inl HubSpotAPIError
      | Response resp \<Rightarrow>
          if status_code resp = 429 then
            (case retry_after_seconds (headers resp) of
               None \<Rightarrow> Inl ValueError
             | Some retry_after \<Rightarrow> Inl (HubSpotRateLimitError retry_after))
          else if status_code resp = 401 then Inl HubSpotAuthenticationError
          else if 400 \<le> status_code resp \<and> status_code resp < 600 then Inl HubSpotAPIError
          else
            (case body resp of
               None \<Rightarrow> Inl HubSpotAPIError
             | Some data \<Rightarrow>
                 (case dict_get data ''results'' (JArr []) of
                    Inl e \<Rightarrow> Inl e
                  | Inr results \<Rightarrow>
                      (case py_len results of Inl e \<Rightarrow> Inl e | Inr n \<Rightarrow> Inr data))))"

text \<open>
  \<^verbatim>\<open>get_deals\<close>: the rate controller first, then the request. The result is the new
  \<^verbatim>\<open>self._request_times\<close>, the events of the call, and the page or the exception.
  The \<^verbatim>\<open>timeout\<close> argument only reaches \<^verbatim>\<open>requests.get\<close> and a message.
\<close>

definition get_deals ::
  "int \<Rightarrow> json \<Rightarrow> string list option \<Rightarrow> bool \<Rightarrow> call \<Rightarrow> real list
     \<Rightarrow> real list \<times> event list \<times> (error + json)" where
  "get_deals limit after properties archived c request_times =
     (case wait_for_rate_limit (clock_now c) (clock_oversleep c) request_times of
        (request_times1, waits) \<Rightarrow>
          (request_times1,
           waits @ [Sent (request_params limit after properties archived)],
           handle_reply (http_reply c)))"

subsection \<open>The extraction loop\<close>

text \<open>
  Lines 269 to 274: the cursor of the next page, or None where the loop breaks.
\<close>

definition next_cursor :: "json \<Rightarrow> error + json option" where
  "next_cursor data =
     (case dict_get data ''paging'' (JObj []) of
        Inl e \<Rightarrow> Inl e
      | Inr paging \<Rightarrow>
          (case py_contains ''next'' paging of
             Inl e \<Rightarrow> Inl e
           | Inr has_next \<Rightarrow>
               if \<not> has_next then Inr None
               else
                 (case py_getitem paging ''next'' of
                    Inl e \<Rightarrow> Inl e
                  | Inr nxt \<Rightarrow>
                      (case py_getitem nxt ''after'' of
                         Inl e \<Rightarrow> Inl e
                       | Inr after \<Rightarrow> Inr (Some after)))))"

text \<open>
  Lines 254 to 274, for the page \<open>data\<close> that \<^verbatim>\<open>get_deals\<close> returned: the events
  (records yielded, checkpoint call), and either the exception raised or the new
  \<^verbatim>\<open>total_deals\<close> with the next cursor. \<open>checkpoint_callback\<close> says whether a callback
  was supplied; the callback itself is taken to return normally. A zero interval
  raises ZeroDivisionError at the modulo, which Python evaluates only when a callback
  is there.
\<close>

definition page_step ::
  "bool \<Rightarrow> int \<Rightarrow> int \<Rightarrow> int \<Rightarrow> json \<Rightarrow> event list \<times> (error + int \<times> json option)" where
  "page_step checkpoint_callback checkpoint_interval page_count total_deals data =
     (case dict_get data ''results'' (JArr []) of
        Inl e \<Rightarrow> ([], Inl e)
      | Inr results \<Rightarrow>
          (case py_iter results of
             Inl e \<Rightarrow> ([], Inl e)
           | Inr deals \<Rightarrow>
               (let page_count1 = page_count + 1;
                    total_deals1 = total_deals + int (length deals);
                    yields = map Yielded deals
                in if checkpoint_callback \<and> checkpoint_interval = 0
                   then (yields, Inl ZeroDivisionError)
                   else
                     (let checkpoints =
                            (if checkpoint_callback \<and> page_count1 mod checkpoint_interval = 0
                             then [Checkpoint page_count1 total_deals1] else [])
                      in case next_cursor data of
                           Inl e \<Rightarrow> (yields @ checkpoints, Inl e)
                         | Inr nxt \<Rightarrow> (yields @ checkpoints, Inr (total_deals1, nxt))))))"

text \<open>
  How a run of the generator ends: the loop broke, an exception reached the consumer,
  or the replies given were used up while the loop was still asking for pages.
\<close>

datatype outcome = Finished | Raised error | Unfinished

text \<open>
  The \<^verbatim>\<open>while True\<close> loop of \<^verbatim>\<open>get_all_deals\<close>, consumed to its end. Each
  iteration calls \<^verbatim>\<open>get_deals\<close> once, which takes the next element of \<open>calls\<close>.
  HubSpotRateLimitError is caught: the loop sleeps 10 seconds and goes round again
  with \<open>after\<close>, \<open>page_count\<close> and \<open>total_deals\<close> as they were. Every other exception
  leaves the generator.
\<close>

fun get_all_deals_loop ::
  "string list option \<Rightarrow> bool \<Rightarrow> bool \<Rightarrow> int \<Rightarrow> json \<Rightarrow> int \<Rightarrow> int \<Rightarrow> call list \<Rightarrow> real list
     \<Rightarrow> real list \<times> event list \<times> outcome" where
  "get_all_deals_loop properties archived checkpoint_callback checkpoint_interval
       after page_count total_deals [] request_times = (request_times, [], Unfinished)"
| "get_all_deals_loop properties archived checkpoint_callback checkpoint_interval
       after page_count total_deals (c # calls) request_times =
     (case get_deals 100 after properties archived c request_times of
        (request_times1, evs, Inl (HubSpotRateLimitError retry_after)) \<Rightarrow>
          (case get_all_deals_loop properties archived checkpoint_callback checkpoint_interval
                  after page_count total_deals calls request_times1 of
             (request_times2, evs2, out) \<Rightarrow> (request_times2, evs @ [Slept 10] @ evs2, out))
      | (request_times1, evs, Inl e) \<Rightarrow> (request_times1, evs, Raised e)
      | (request_times1, evs, Inr data) \<Rightarrow>
          (case page_step checkpoint_callback checkpoint_interval page_count total_deals data of
             (evs1, Inl e) \<Rightarrow> (request_times1, evs @ evs1, Raised e)
           | (evs1, Inr (total_deals1, None)) \<Rightarrow> (request_times1, evs @ evs1, Finished)
           | (evs1, Inr (total_deals1, Some after1)) \<Rightarrow>
               (case get_all_deals_loop properties archived checkpoint_callback checkpoint_interval
                       after1 (page_count + 1) total_deals1 calls request_times1 of
                  (request_times2, evs2, out) \<Rightarrow> (request_times2, evs @ evs1 @ evs2, out))))"

definition get_all_deals ::
  "string list option \<Rightarrow> bool \<Rightarrow> bool \<Rightarrow> int \<Rightarrow> call list \<Rightarrow> real list
     \<Rightarrow> real list \<times> event list \<times> outcome" where
  "get_all_deals properties archived checkpoint_callback checkpoint_interval calls request_times =
     get_all_deals_loop properties archived checkpoint_callback checkpoint_interval
       JNull 0 0 calls request_times"

text \<open>Projections of a trace.\<close>

fun yielded :: "event list \<Rightarrow> json list" where
  "yielded [] = []"
| "yielded (Yielded d # evs) = d # yielded evs"
| "yielded (_ # evs) = yielded evs"

fun sent :: "event list \<Rightarrow> (string \<times> json) list list" where
  "sent [] = []"
| "sent (Sent params # evs) = params # sent evs"
| "sent (_ # evs) = sent evs"

fun slept :: "event list \<Rightarrow> real list" where
  "slept [] = []"
| "slept (Slept d # evs) = d # slept evs"
| "slept (_ # evs) = slept evs"

fun checkpoints :: "event list \<Rightarrow> (int \<times> int) list" where
  "checkpoints [] = []"
| "checkpoints (Checkpoint p n # evs) = (p, n) # checkpoints evs"
| "checkpoints (_ # evs) = checkpoints evs"

subsection \<open>Results of a run and replies of the server\<close>

definition state_of :: "real list \<times> event list \<times> 'a \<Rightarrow> real list" where
  "state_of r = fst r"

definition trace_of :: "real list \<times> event list \<times> 'a \<Rightarrow> event list" where
  "trace_of r = fst (snd r)"

definition result_of :: "real list \<times> event list \<times> 'a \<Rightarrow> 'a" where
  "result_of r = snd (snd r)"

text \<open>
  A page as the API sends it: an object with \<open>results\<close> and, when there is a next
  page, \<open>paging.next.after\<close>.
\<close>

definition page_body :: "json list \<Rightarrow> string option \<Rightarrow> json" where
  "page_body results cursor =
     JObj ((''results'', JArr results) #
           (case cursor of
              None \<Rightarrow> []
            | Some cur \<Rightarrow> [(''paging'', JObj [(''next'', JObj [(''after'', JStr cur)])])]))"

definition page_reply :: "json list \<Rightarrow> string option \<Rightarrow> reply" where
  "page_reply results cursor =
     Response \<lparr> status_code = 200, headers = [], body = Some (page_body results cursor) \<rparr>"

definition status_reply :: "int \<Rightarrow> (string \<times> string) list \<Rightarrow> reply" where
  "status_reply code hs = Response \<lparr> status_code = code, headers = hs, body = None \<rparr>"

definition page_call :: "real \<times> real \<Rightarrow> json list \<Rightarrow> string option \<Rightarrow> call" where
  "page_call clk results cursor =
     \<lparr> clock_now = fst clk, clock_oversleep = snd clk, http_reply = page_reply results cursor \<rparr>"

definition reply_call :: "real \<times> real \<Rightarrow> reply \<Rightarrow> call" where
  "reply_call clk r = \<lparr> clock_now = fst clk, clock_oversleep = snd clk, http_reply = r \<rparr>"

text \<open>
  An extraction over a chain of pages: every page of \<open>pages\<close> carries a cursor to the
  next one, and \<open>final\<close> is the page without a cursor.
\<close>

definition chain_calls ::
  "((real \<times> real) \<times> json list \<times> string) list \<Rightarrow> (real \<times> real) \<times> json list \<Rightarrow> call list" where
  "chain_calls pages final =
     map (\<lambda>(clk, results, cur). page_call clk results (Some cur)) pages
       @ [page_call (fst final) (snd final) None]"


text \<open>The entries used in the examples, as the API returns them.\<close>

definition deal_123 :: json where
  "deal_123 = JObj [(''id'', JStr ''123''),
                    (''properties'', JObj [(''dealname'', JStr ''Test Deal'')]),
                    (''createdAt'', JStr ''2024-01-01T00:00:00Z''),
                    (''updatedAt'', JStr ''2024-01-02T00:00:00Z''),
                    (''archived'', JBool False)]"

definition deal_456 :: json where
  "deal_456 = JObj [(''id'', JStr ''456''),
                    (''properties'', JObj [(''dealname'', JStr ''Deal 2'')]),
                    (''createdAt'', JStr ''2024-01-03T00:00:00Z''),
                    (''updatedAt'', JStr ''2024-01-04T00:00:00Z''),
                    (''archived'', JBool False)]"

section \<open>Properties of the rate controller\<close>

lemma length_active_after_le: "length (active_after c ts) \<le> length ts"
  by (simp add: active_after_def)

lemma active_after_drops_head:
  assumes "ts \<noteq> []" and "ts ! 0 \<le> c"
  shows "length (active_after c ts) < length ts"
proof (cases ts)
  case Nil
  with assms show ?thesis by simp
next
  case (Cons t rest)
  with assms have "\<not> t > c" by simp
  then have "length (active_after c ts) = length (filter (\<lambda>t. t > c) rest)"
    by (simp add: active_after_def Cons)
  also have "\<dots> \<le> length rest" by simp
  finally show ?thesis by (simp add: Cons)
qed

lemma wait_for_rate_limit_length:
  assumes "0 \<le> oversleep" and "length ts \<le> RATE_LIMIT_MAX"
  shows "length (fst (wait_for_rate_limit now oversleep ts)) \<le> RATE_LIMIT_MAX"
proof -
  let ?ts1 = "active_after (now - RATE_LIMIT_WINDOW) ts"
  have le1: "length ?ts1 \<le> RATE_LIMIT_MAX"
    using length_active_after_le [of "now - RATE_LIMIT_WINDOW" ts] assms(2) by linarith
  show ?thesis
  proof (cases "length ?ts1 \<ge> RATE_LIMIT_MAX")
    case False
    then show ?thesis by (simp add: wait_for_rate_limit_def Let_def)
  next
    case True
    then have ne: "?ts1 \<noteq> []" by (auto simp: RATE_LIMIT_MAX_def)
    let ?w = "RATE_LIMIT_WINDOW - (now - ?ts1 ! 0)"
    have "?ts1 ! 0 \<in> set ?ts1" using ne by (simp del: nth_mem add: nth_mem)
    then have "?ts1 ! 0 > now - RATE_LIMIT_WINDOW" by (simp add: active_after_def)
    then have pos: "?w > 0" by simp
    let ?now2 = "now + ?w + oversleep"
    have "?ts1 ! 0 \<le> ?now2 - RATE_LIMIT_WINDOW" using assms(1) by simp
    from active_after_drops_head [OF ne this]
    have "length (active_after (?now2 - RATE_LIMIT_WINDOW) ?ts1) < RATE_LIMIT_MAX"
      using le1 by linarith
    then show ?thesis using True pos by (simp add: wait_for_rate_limit_def Let_def)
  qed
qed

lemma admit_all_length:
  assumes "\<forall>(now, oversleep) \<in> set calls. 0 \<le> oversleep" and "length ts \<le> RATE_LIMIT_MAX"
  shows "length (admit_all calls ts) \<le> RATE_LIMIT_MAX"
  using assms
proof (induction calls arbitrary: ts)
  case Nil
  then show ?case by simp
next
  case (Cons c calls)
  obtain now oversleep where c: "c = (now, oversleep)" by (cases c)
  from Cons.prems c have o: "0 \<le> oversleep" by simp
  have l: "length (fst (wait_for_rate_limit now oversleep ts)) \<le> RATE_LIMIT_MAX"
    by (rule wait_for_rate_limit_length [OF o Cons.prems(2)])
  from Cons.prems have "\<forall>(now, oversleep) \<in> set calls. 0 \<le> oversleep" by simp
  from Cons.IH [OF this l] show ?case by (simp add: c)
qed

lemma active_after_twice:
  assumes "c1 \<le> c2"
  shows "active_after c2 (active_after c1 ts) = active_after c2 ts"
proof -
  have "\<And>t. (c1 < t \<and> c2 < t) = (c2 < t)" using assms by auto
  then show ?thesis by (simp add: active_after_def)
qed

lemma at_quota_wait_positive:
  assumes "RATE_LIMIT_MAX \<le> length (active_after (now - RATE_LIMIT_WINDOW) ts)"
  shows "0 < RATE_LIMIT_WINDOW - (now - active_after (now - RATE_LIMIT_WINDOW) ts ! 0)"
proof -
  let ?live = "active_after (now - RATE_LIMIT_WINDOW) ts"
  from assms have "0 < length ?live" by (auto simp: RATE_LIMIT_MAX_def)
  then have "?live ! 0 \<in> set ?live" by (rule nth_mem)
  then have "now - RATE_LIMIT_WINDOW < ?live ! 0" by (simp add: active_after_def)
  then show ?thesis by simp
qed

lemma length_in_trailing_window_le: "length (in_trailing_window t ts) \<le> length ts"
  by (simp add: in_trailing_window_def)

lemma admit_all_same_instant:
  "n + length ts \<le> 150 \<Longrightarrow> set ts \<subseteq> {0} \<Longrightarrow> admit_all (replicate n (0, 0)) ts = ts @ replicate n 0"
proof (induction n arbitrary: ts)
  case 0
  then show ?case by simp
next
  case (Suc n)
  have f: "filter (\<lambda>t. - 10 < t) ts = ts" using Suc.prems(2) by (auto simp: filter_id_conv)
  have "fst (wait_for_rate_limit 0 0 ts) = ts @ [0]"
    using Suc.prems(1) by (simp add: wait_for_rate_limit_def active_after_def RATE_LIMIT_MAX_def RATE_LIMIT_WINDOW_def Let_def f)
  moreover have "admit_all (replicate n (0,0)) (ts @ [0]) = (ts @ [0]) @ replicate n 0"
    using Suc.prems by (intro Suc.IH) auto
  ultimately show ?case by (simp add: replicate_app_Cons_same)
qed

lemma sliding_window_exact:
  assumes "\<forall>(now, oversleep) \<in> set calls. 0 \<le> oversleep" and "0 \<le> oversleep"
  shows "let ts = admit_all calls [];
             live = active_after (now - RATE_LIMIT_WINDOW) ts;
             at_quota = (RATE_LIMIT_MAX \<le> length live);
             wait_time = RATE_LIMIT_WINDOW - (now - live ! 0);
             now' = (if at_quota then now + wait_time + oversleep else now)
         in wait_for_rate_limit now oversleep ts
              = (active_after (now' - RATE_LIMIT_WINDOW) ts @ [now'],
                 if at_quota then [Slept wait_time] else [])
            \<and> (at_quota \<longrightarrow> 0 < wait_time)
            \<and> (\<forall>t. length (in_trailing_window t ts) \<le> RATE_LIMIT_MAX)
            \<and> (\<forall>t. length (in_trailing_window t (fst (wait_for_rate_limit now oversleep ts)))
                       \<le> RATE_LIMIT_MAX)"
proof -
  let ?ts = "admit_all calls []"
  let ?live = "active_after (now - RATE_LIMIT_WINDOW) ?ts"
  let ?w = "RATE_LIMIT_WINDOW - (now - ?live ! 0)"
  let ?q = "RATE_LIMIT_MAX \<le> length ?live"
  let ?now' = "if ?q then now + ?w + oversleep else now"
  have len: "length ?ts \<le> RATE_LIMIT_MAX"
    by (rule admit_all_length [OF assms(1)]) simp
  have pos: "?q \<Longrightarrow> 0 < ?w" by (rule at_quota_wait_positive)
  have step: "wait_for_rate_limit now oversleep ?ts
                = (active_after (?now' - RATE_LIMIT_WINDOW) ?ts @ [?now'],
                   if ?q then [Slept ?w] else [])"
  proof (cases ?q)
    case False
    then show ?thesis by (simp add: wait_for_rate_limit_def Let_def)
  next
    case True
    with pos have w: "0 < ?w" by simp
    then have "now - RATE_LIMIT_WINDOW \<le> now + ?w + oversleep - RATE_LIMIT_WINDOW"
      using assms(2) by simp
    from active_after_twice [OF this] True w
    show ?thesis by (simp add: wait_for_rate_limit_def Let_def)
  qed
  have inv0: "\<forall>t. length (in_trailing_window t ?ts) \<le> RATE_LIMIT_MAX"
    using len length_in_trailing_window_le order_trans by blast
  have "length (fst (wait_for_rate_limit now oversleep ?ts)) \<le> RATE_LIMIT_MAX"
    by (rule wait_for_rate_limit_length [OF assms(2) len])
  then have inv1: "\<forall>t. length (in_trailing_window t (fst (wait_for_rate_limit now oversleep ?ts)))
                       \<le> RATE_LIMIT_MAX"
    using length_in_trailing_window_le order_trans by blast
  from step pos inv0 inv1 show ?thesis unfolding Let_def by blast
qed

lemma wait_for_rate_limit_rounded_exact:
  "wait_for_rate_limit_rounded (\<lambda>x. x) now oversleep ts = wait_for_rate_limit now oversleep ts"
  by (simp add: wait_for_rate_limit_rounded_def wait_for_rate_limit_def)

lemma admit_all_rounded_exact:
  "admit_all_rounded (\<lambda>x. x) calls ts = admit_all calls ts"
  by (induction calls ts rule: admit_all.induct) (simp_all add: wait_for_rate_limit_rounded_exact)

text \<open>
  Claim C1 (sliding-window rate invariant), as the code has it. The invariant holds
  under two conditions on the environment: every \<^verbatim>\<open>time.sleep\<close> returns no earlier
  than requested, so that the clock then reads at least \<open>now + wait_time\<close>
  (\<open>0 \<le> oversleep\<close>), and the subtractions on the timestamps are exact
  (\<open>rnd x = x\<close>), as they are in double precision for present-day clock readings.
  Take any sequence of such admissions on a fresh service, and one more admission
  after them. That admission prunes the entries not newer than \<open>now' - window\<close>,
  where \<open>now'\<close> is the clock reading it holds when it returns, and appends \<open>now'\<close>;
  it sleeps exactly when the in-window count is at the quota, for a positive time; and
  both before and after it the recorded list never holds more than
  \<open>RATE_LIMIT_MAX\<close> timestamps in any trailing window.
\<close>

theorem sliding_window_invariant:
  assumes "\<forall>x. rnd x = x"
      and "\<forall>(now, oversleep) \<in> set calls. 0 \<le> oversleep" and "0 \<le> oversleep"
  shows "let ts = admit_all_rounded rnd calls [];
             live = active_after (now - RATE_LIMIT_WINDOW) ts;
             at_quota = (RATE_LIMIT_MAX \<le> length live);
             wait_time = RATE_LIMIT_WINDOW - (now - live ! 0);
             now' = (if at_quota then now + wait_time + oversleep else now)
         in wait_for_rate_limit_rounded rnd now oversleep ts
              = (active_after (now' - RATE_LIMIT_WINDOW) ts @ [now'],
                 if at_quota then [Slept wait_time] else [])
            \<and> (at_quota \<longrightarrow> 0 < wait_time)
            \<and> (\<forall>t. length (in_trailing_window t ts) \<le> RATE_LIMIT_MAX)
            \<and> (\<forall>t. length (in_trailing_window t
                         (fst (wait_for_rate_limit_rounded rnd now oversleep ts)))
                       \<le> RATE_LIMIT_MAX)"
proof -
  from assms(1) have rnd: "rnd = (\<lambda>x. x)" by (simp add: fun_eq_iff)
  show ?thesis
    unfolding rnd admit_all_rounded_exact wait_for_rate_limit_rounded_exact
    by (rule sliding_window_exact [OF assms(2,3)])
qed

text \<open>
  The invariant at work: 150 admissions at time 0 fill the window; the next one, at
  time 1, sleeps 9 seconds, drops all of them and records time 10.
\<close>

theorem sliding_window_invariant_witness:
  "wait_for_rate_limit_rounded (\<lambda>x. x) 1 0 (admit_all_rounded (\<lambda>x. x) (replicate 150 (0, 0)) [])
     = ([10], [Slept 9])
   \<and> length (in_trailing_window 10 (fst (wait_for_rate_limit_rounded (\<lambda>x. x) 1 0
               (admit_all_rounded (\<lambda>x. x) (replicate 150 (0, 0)) []))))
       \<le> RATE_LIMIT_MAX"
proof -
  have e: "\<forall>x::real. (\<lambda>x. x) x = x" by simp
  have a: "admit_all_rounded (\<lambda>x. x) (replicate 150 (0, 0)) [] = replicate 150 0"
    using admit_all_same_instant [of 150 "[]"] by (simp add: admit_all_rounded_exact)
  have h: "\<forall>(now, oversleep) \<in> set (replicate 150 (0::real, 0::real)). 0 \<le> oversleep" by simp
  have l: "active_after (- 9) (replicate 150 0) = replicate 150 0"
    by (simp add: active_after_def)
  have l2: "active_after 0 (replicate 150 0) = []"
    by (simp add: active_after_def)
  from sliding_window_invariant [OF e h, of 0 1]
  show ?thesis
    by (auto simp: a l l2 Let_def RATE_LIMIT_MAX_def RATE_LIMIT_WINDOW_def)
qed

text \<open>
  Claim C1 as stated speaks of every sequence of admissions. When the clock reads
  less than \<open>now + wait_time\<close> after the sleep, the second pruning keeps the oldest
  entry and the quota is exceeded: after 150 admissions at time 0, an admission at
  time 1 sleeps 9 seconds; if the clock then reads 9 (one second short), the list
  holds 151 timestamps, all of them in the window that ends at 9.
\<close>

theorem early_wakeup_exceeds_quota:
  "fst (wait_for_rate_limit_rounded (\<lambda>x. x) 1 (- 1)
          (admit_all_rounded (\<lambda>x. x) (replicate 150 (0, 0)) []))
     = replicate 150 0 @ [9]
   \<and> length (in_trailing_window 9 (fst (wait_for_rate_limit_rounded (\<lambda>x. x) 1 (- 1)
               (admit_all_rounded (\<lambda>x. x) (replicate 150 (0, 0)) [])))) = 151
   \<and> \<not> length (in_trailing_window 9 (fst (wait_for_rate_limit_rounded (\<lambda>x. x) 1 (- 1)
               (admit_all_rounded (\<lambda>x. x) (replicate 150 (0, 0)) [])))) \<le> RATE_LIMIT_MAX"
proof -
  have a: "admit_all_rounded (\<lambda>x. x) (replicate 150 (0, 0)) [] = replicate 150 0"
    using admit_all_same_instant [of 150 "[]"] by (simp add: admit_all_rounded_exact)
  have l: "active_after (- 9) (replicate 150 0) = replicate 150 0"
    by (simp add: active_after_def)
  have l2: "active_after (- 1) (replicate 150 0) = replicate 150 0"
    by (simp add: active_after_def)
  have w: "fst (wait_for_rate_limit_rounded (\<lambda>x. x) 1 (- 1) (replicate 150 0))
             = replicate 150 0 @ [9]"
    by (simp add: wait_for_rate_limit_rounded_def l l2 Let_def RATE_LIMIT_MAX_def
        RATE_LIMIT_WINDOW_def)
  have c: "length (in_trailing_window 9 (replicate 150 0 @ [9])) = 151"
    by (simp add: in_trailing_window_def RATE_LIMIT_WINDOW_def)
  show ?thesis by (simp add: a w c RATE_LIMIT_MAX_def)
qed

text \<open>
  The second condition is needed as well. Let 150 admissions take place at a clock
  reading \<open>t0\<close> so small that \<open>10 - t0\<close> rounds to 10 (in double precision,
  \<open>t0 = 1 / 2 ^ 60\<close> is one), and the next one at reading 10. All 150 entries are
  newer than the cutoff 0, the computed \<open>wait_time\<close> is 0, nothing sleeps, and a
  151st timestamp is recorded in the same window.
\<close>

lemma admit_all_rounded_same_instant:
  assumes "rnd (t0 - RATE_LIMIT_WINDOW) < t0"
  shows "n + length ts \<le> 150 \<Longrightarrow> set ts \<subseteq> {t0}
           \<Longrightarrow> admit_all_rounded rnd (replicate n (t0, 0)) ts = ts @ replicate n t0"
proof (induction n arbitrary: ts)
  case 0
  then show ?case by simp
next
  case (Suc n)
  have f: "filter (\<lambda>t. rnd (t0 - RATE_LIMIT_WINDOW) < t) ts = ts"
    using Suc.prems(2) assms by (auto simp: filter_id_conv)
  have "fst (wait_for_rate_limit_rounded rnd t0 0 ts) = ts @ [t0]"
    using Suc.prems(1)
    by (simp add: wait_for_rate_limit_rounded_def active_after_def RATE_LIMIT_MAX_def Let_def f)
  moreover have "admit_all_rounded rnd (replicate n (t0, 0)) (ts @ [t0]) = (ts @ [t0]) @ replicate n t0"
    using Suc.prems by (intro Suc.IH) auto
  ultimately show ?case by (simp add: replicate_app_Cons_same)
qed

lemma rounding_exceeds_quota:
  assumes "0 < t0" and "t0 \<le> 10"
      and "rnd (10 - 10) = 0"
      and "rnd (10 - t0) = 10"
      and "rnd (t0 - 10) < t0"
  shows "wait_for_rate_limit_rounded rnd 10 0
           (admit_all_rounded rnd (replicate 150 (t0, 0)) [])
         = (replicate 150 t0 @ [10], [])
       \<and> length (in_trailing_window 10 (fst (wait_for_rate_limit_rounded rnd 10 0
           (admit_all_rounded rnd (replicate 150 (t0, 0)) [])))) = 151"
proof -
  have h: "rnd (t0 - RATE_LIMIT_WINDOW) < t0"
    using assms(5) by (simp add: RATE_LIMIT_WINDOW_def)
  have a: "admit_all_rounded rnd (replicate 150 (t0, 0)) [] = replicate 150 t0"
    using admit_all_rounded_same_instant [of rnd t0 150 "[]"] h by simp
  have l: "active_after (rnd (10 - 10)) (replicate 150 t0) = replicate 150 t0"
    using assms(1,3) by (simp add: active_after_def)
  have hd: "replicate 150 t0 ! 0 = t0" by simp
  have w: "wait_for_rate_limit_rounded rnd 10 0 (replicate 150 t0)
             = (replicate 150 t0 @ [10], [])"
    unfolding wait_for_rate_limit_rounded_def RATE_LIMIT_WINDOW_def Let_def l hd assms(4)
    using assms(3) by (simp add: RATE_LIMIT_MAX_def)
  have c: "length (in_trailing_window 10 (replicate 150 t0 @ [10])) = 151"
    using assms(1,2) by (simp add: in_trailing_window_def RATE_LIMIT_WINDOW_def)
  show ?thesis by (simp add: a w c)
qed

section \<open>Observability\<close>

text \<open>
  Claim C9 (status is read-only). \<^verbatim>\<open>get_rate_limit_status\<close> leaves
  \<^verbatim>\<open>self._request_times\<close> exactly as it was, for every list and every clock reading,
  and reports the in-window count of a pruned copy, the quota 150, the window of 10
  seconds and the remaining budget.
\<close>

theorem status_is_read_only:
  "snd (get_rate_limit_status now request_times) = request_times
   \<and> requests_in_window (fst (get_rate_limit_status now request_times))
       = int (length (filter (\<lambda>t. t > now - 10) request_times))
   \<and> max_requests (fst (get_rate_limit_status now request_times)) = 150
   \<and> window_seconds (fst (get_rate_limit_status now request_times)) = 10
   \<and> remaining (fst (get_rate_limit_status now request_times))
       = 150 - int (length (filter (\<lambda>t. t > now - 10) request_times))"
  by (simp add: get_rate_limit_status_def active_after_def RATE_LIMIT_MAX_def
      RATE_LIMIT_WINDOW_def Let_def)

section \<open>The single-page fetch\<close>


lemma sent_append: "sent (a @ b) = sent a @ sent b"
  by (induction a rule: sent.induct) auto

lemma yielded_append: "yielded (a @ b) = yielded a @ yielded b"
  by (induction a rule: yielded.induct) auto

lemma slept_append: "slept (a @ b) = slept a @ slept b"
  by (induction a rule: slept.induct) auto


lemma waits_only_sleep:
  "sent (snd (wait_for_rate_limit now oversleep ts)) = []"
  "yielded (snd (wait_for_rate_limit now oversleep ts)) = []"
  "checkpoints (snd (wait_for_rate_limit now oversleep ts)) = []"
  by (simp_all add: wait_for_rate_limit_def Let_def)



text \<open>
  For instance, calls answered by 429, by 401 and by a timeout each raise and each
  record their timestamp 7 behind the entries 1 and 2.
\<close>

lemma failed_requests_still_count: "state_of (get_deals 100 JNull None False (reply_call (7, 0) (status_reply 429 [])) [1, 2]) = [1, 2, 7]
   \<and> result_of (get_deals 100 JNull None False (reply_call (7, 0) (status_reply 429 [])) [1, 2]) = Inl (HubSpotRateLimitError 10)
   \<and> state_of (get_deals 100 JNull None False (reply_call (7, 0) (status_reply 401 [])) [1, 2]) = [1, 2, 7]
   \<and> result_of (get_deals 100 JNull None False (reply_call (7, 0) (status_reply 401 [])) [1, 2]) = Inl HubSpotAuthenticationError
   \<and> state_of (get_deals 100 JNull None False (reply_call (7, 0) Timeout) [1, 2]) = [1, 2, 7]
   \<and> result_of (get_deals 100 JNull None False (reply_call (7, 0) Timeout) [1, 2]) = Inl HubSpotAPIError"
  by (simp add: get_deals_def state_of_def result_of_def wait_for_rate_limit_def active_after_def
      RATE_LIMIT_MAX_def RATE_LIMIT_WINDOW_def Let_def reply_call_def status_reply_def handle_reply_def
      retry_after_seconds_def header_get_def)

section \<open>The extraction loop on given replies\<close>

lemmas run_defs = get_all_deals_def get_deals_def wait_for_rate_limit_def active_after_def
  RATE_LIMIT_MAX_def RATE_LIMIT_WINDOW_def Let_def handle_reply_def page_step_def next_cursor_def
  retry_after_seconds_def header_get_def python_int_def parse_unsigned_def
  strip_def is_space_def is_digit_def lower_char_def page_body_def reply_call_def page_reply_def status_reply_def
  page_call_def state_of_def trace_of_def result_of_def

text \<open>
  Claim C2 (retry after a 429), evaluated where the code departs from it. The server
  answers 429 with \<open>Retry-After: 5\<close>, then 200 with one deal. \<^verbatim>\<open>get_deals\<close> reads the
  5 seconds into its exception, but \<^verbatim>\<open>get_all_deals\<close> sleeps the constant 10 seconds.
  The rest of the claim holds on this run: the second request has the same parameters
  as the first, and the deal is yielded once.
\<close>

theorem retry_sleeps_ten_not_retry_after:
  "handle_reply (status_reply 429 [(''Retry-After'', ''5'')]) = Inl (HubSpotRateLimitError 5)
   \<and> trace_of (get_all_deals None False False 5
        [reply_call (0, 0) (status_reply 429 [(''Retry-After'', ''5'')]),
         page_call (10, 0) [deal_123] None] [])
      = [Sent (request_params 100 JNull None False), Slept 10,
         Sent (request_params 100 JNull None False), Yielded deal_123]
   \<and> slept (trace_of (get_all_deals None False False 5
        [reply_call (0, 0) (status_reply 429 [(''Retry-After'', ''5'')]),
         page_call (10, 0) [deal_123] None] [])) \<noteq> [5]
   \<and> result_of (get_all_deals None False False 5
        [reply_call (0, 0) (status_reply 429 [(''Retry-After'', ''5'')]),
         page_call (10, 0) [deal_123] None] []) = Finished"
  by (simp add: run_defs)

text \<open>
  Claim C6 (authentication failures), evaluated where the code departs from it. A 401
  raises HubSpotAuthenticationError, but a 403 falls through to
  \<^verbatim>\<open>raise_for_status\<close> and leaves \<^verbatim>\<open>get_deals\<close> as a plain HubSpotAPIError;
  \<^verbatim>\<open>get_all_deals\<close> passes that on without a retry.
\<close>

theorem forbidden_is_not_authentication_error:
  "result_of (get_deals 100 JNull None False (reply_call (0, 0) (status_reply 403 [])) [])
     = Inl HubSpotAPIError
   \<and> result_of (get_deals 100 JNull None False (reply_call (0, 0) (status_reply 403 [])) [])
     \<noteq> Inl HubSpotAuthenticationError
   \<and> result_of (get_deals 100 JNull None False (reply_call (0, 0) (status_reply 401 [])) [])
     = Inl HubSpotAuthenticationError
   \<and> result_of (get_all_deals None False False 5 [reply_call (0, 0) (status_reply 403 [])] [])
     = Raised HubSpotAPIError"
  by (simp add: run_defs)

section \<open>One iteration of the loop\<close>

lemma get_deals_parts:
  "get_deals limit after properties archived c rt
     = (fst (wait_for_rate_limit (clock_now c) (clock_oversleep c) rt),
        snd (wait_for_rate_limit (clock_now c) (clock_oversleep c) rt)
          @ [Sent (request_params limit after properties archived)],
        handle_reply (http_reply c))"
  by (simp add: get_deals_def case_prod_beta)

lemma loop_rate_limited:
  assumes "handle_reply (http_reply c) = Inl (HubSpotRateLimitError d)"
  shows "get_all_deals_loop properties archived cb n after pc tot (c # calls) rt
     = (state_of (get_all_deals_loop properties archived cb n after pc tot calls
                   (fst (wait_for_rate_limit (clock_now c) (clock_oversleep c) rt))),
        snd (wait_for_rate_limit (clock_now c) (clock_oversleep c) rt)
          @ [Sent (request_params 100 after properties archived), Slept 10]
          @ trace_of (get_all_deals_loop properties archived cb n after pc tot calls
                   (fst (wait_for_rate_limit (clock_now c) (clock_oversleep c) rt))),
        result_of (get_all_deals_loop properties archived cb n after pc tot calls
                   (fst (wait_for_rate_limit (clock_now c) (clock_oversleep c) rt))))"
  using assms
  by (simp add: get_deals_parts case_prod_beta state_of_def trace_of_def result_of_def)

lemma loop_page_last:
  assumes "handle_reply (http_reply c) = Inr data"
      and "page_step cb n pc tot data = (evs1, Inr (tot1, None))"
  shows "get_all_deals_loop properties archived cb n after pc tot (c # calls) rt
     = (fst (wait_for_rate_limit (clock_now c) (clock_oversleep c) rt),
        snd (wait_for_rate_limit (clock_now c) (clock_oversleep c) rt)
          @ [Sent (request_params 100 after properties archived)] @ evs1,
        Finished)"
  using assms by (simp add: get_deals_parts)

lemma loop_page_next:
  assumes "handle_reply (http_reply c) = Inr data"
      and "page_step cb n pc tot data = (evs1, Inr (tot1, Some after1))"
  shows "get_all_deals_loop properties archived cb n after pc tot (c # calls) rt
     = (state_of (get_all_deals_loop properties archived cb n after1 (pc + 1) tot1 calls
                   (fst (wait_for_rate_limit (clock_now c) (clock_oversleep c) rt))),
        snd (wait_for_rate_limit (clock_now c) (clock_oversleep c) rt)
          @ [Sent (request_params 100 after properties archived)] @ evs1
          @ trace_of (get_all_deals_loop properties archived cb n after1 (pc + 1) tot1 calls
                   (fst (wait_for_rate_limit (clock_now c) (clock_oversleep c) rt))),
        result_of (get_all_deals_loop properties archived cb n after1 (pc + 1) tot1 calls
                   (fst (wait_for_rate_limit (clock_now c) (clock_oversleep c) rt))))"
  using assms
  by (simp add: get_deals_parts case_prod_beta state_of_def trace_of_def result_of_def)


text \<open>From here on the loop is unfolded only through the step lemmas above.\<close>

declare get_all_deals_loop.simps [simp del]

lemma handle_reply_page: "handle_reply (page_reply results cursor) = Inr (page_body results cursor)"
  by (simp add: handle_reply_def page_reply_def page_body_def)

lemma next_cursor_page:
  "next_cursor (page_body results None) = Inr None"
  "next_cursor (page_body results (Some cur)) = Inr (Some (JStr cur))"
  by (simp_all add: next_cursor_def page_body_def)

lemma page_step_page:
  assumes "cb \<longrightarrow> n \<noteq> 0"
  shows "page_step cb n pc tot (page_body results cursor)
     = (map Yielded results
          @ (if cb \<and> (pc + 1) mod n = 0 then [Checkpoint (pc + 1) (tot + int (length results))] else []),
        Inr (tot + int (length results), map_option JStr cursor))"
proof -
  have r: "dict_get (page_body results cursor) ''results'' (JArr []) = Inr (JArr results)"
    by (simp add: page_body_def)
  have nc: "next_cursor (page_body results cursor) = Inr (map_option JStr cursor)"
    by (cases cursor) (simp_all add: next_cursor_page)
  show ?thesis using assms by (auto simp: page_step_def r nc Let_def)
qed

lemma yielded_map_Yielded: "yielded (map Yielded ds) = ds"
  by (induction ds) auto

lemma sent_map_Yielded: "sent (map Yielded ds) = []"
  by (induction ds) auto


lemma chain_calls_Cons:
  "chain_calls ((clk, results, cur) # pages) final
     = page_call clk results (Some cur) # chain_calls pages final"
  by (simp add: chain_calls_def)

lemma chain_calls_Nil: "chain_calls [] final = [page_call (fst final) (snd final) None]"
  by (simp add: chain_calls_def)

lemma page_call_sel:
  "http_reply (page_call clk results cursor) = page_reply results cursor"
  "clock_now (page_call clk results cursor) = fst clk"
  "clock_oversleep (page_call clk results cursor) = snd clk"
  by (simp_all add: page_call_def)

lemma loop_on_final_page:
  assumes "cb \<longrightarrow> n \<noteq> 0"
  shows "get_all_deals_loop properties archived cb n after pc tot
           (page_call clk results None # calls) rt
     = (fst (wait_for_rate_limit (fst clk) (snd clk) rt),
        snd (wait_for_rate_limit (fst clk) (snd clk) rt)
          @ [Sent (request_params 100 after properties archived)]
          @ map Yielded results
          @ (if cb \<and> (pc + 1) mod n = 0
             then [Checkpoint (pc + 1) (tot + int (length results))] else []),
        Finished)"
proof -
  have h: "handle_reply (http_reply (page_call clk results None)) = Inr (page_body results None)"
    by (simp add: page_call_sel handle_reply_page)
  have p: "page_step cb n pc tot (page_body results None)
     = (map Yielded results
          @ (if cb \<and> (pc + 1) mod n = 0 then [Checkpoint (pc + 1) (tot + int (length results))] else []),
        Inr (tot + int (length results), None))"
    using page_step_page [OF assms, of pc tot results None] by simp
  show ?thesis
    using loop_page_last [OF h p, of properties archived after calls rt]
    by (simp add: page_call_sel)
qed

lemma loop_on_linked_page:
  assumes "cb \<longrightarrow> n \<noteq> 0"
  shows "get_all_deals_loop properties archived cb n after pc tot
           (page_call clk results (Some cur) # calls) rt
     = (state_of (get_all_deals_loop properties archived cb n (JStr cur) (pc + 1)
                    (tot + int (length results)) calls (fst (wait_for_rate_limit (fst clk) (snd clk) rt))),
        snd (wait_for_rate_limit (fst clk) (snd clk) rt)
          @ [Sent (request_params 100 after properties archived)]
          @ (map Yielded results
             @ (if cb \<and> (pc + 1) mod n = 0
                then [Checkpoint (pc + 1) (tot + int (length results))] else []))
          @ trace_of (get_all_deals_loop properties archived cb n (JStr cur) (pc + 1)
                    (tot + int (length results)) calls (fst (wait_for_rate_limit (fst clk) (snd clk) rt))),
        result_of (get_all_deals_loop properties archived cb n (JStr cur) (pc + 1)
                    (tot + int (length results)) calls (fst (wait_for_rate_limit (fst clk) (snd clk) rt))))"
proof -
  have h: "handle_reply (http_reply (page_call clk results (Some cur))) = Inr (page_body results (Some cur))"
    by (simp add: page_call_sel handle_reply_page)
  have p: "page_step cb n pc tot (page_body results (Some cur))
     = (map Yielded results
          @ (if cb \<and> (pc + 1) mod n = 0 then [Checkpoint (pc + 1) (tot + int (length results))] else []),
        Inr (tot + int (length results), Some (JStr cur)))"
    using page_step_page [OF assms, of pc tot results "Some cur"] by simp
  show ?thesis
    using loop_page_next [OF h p, of properties archived after calls rt]
    by (simp add: page_call_sel)
qed

lemma chain_result:
  assumes "cb \<longrightarrow> n \<noteq> 0"
  shows "result_of (get_all_deals_loop properties archived cb n after pc tot
                      (chain_calls pages final @ rest) rt) = Finished"
proof (induction pages arbitrary: after pc tot rt)
  case Nil
  show ?case by (simp add: chain_calls_Nil loop_on_final_page [OF assms] result_of_def)
next
  case (Cons pg pages)
  obtain clk results cur where pg: "pg = (clk, results, cur)" by (cases pg)
  show ?case
    by (simp add: pg chain_calls_Cons loop_on_linked_page [OF assms] Cons.IH)
       (simp add: result_of_def)
qed

lemma chain_yielded:
  assumes "cb \<longrightarrow> n \<noteq> 0"
  shows "yielded (trace_of (get_all_deals_loop properties archived cb n after pc tot
                      (chain_calls pages final @ rest) rt))
           = concat (map (\<lambda>(clk, results, cur). results) pages) @ snd final"
proof (induction pages arbitrary: after pc tot rt)
  case Nil
  show ?case
    by (simp add: chain_calls_Nil loop_on_final_page [OF assms] trace_of_def
        yielded_append waits_only_sleep yielded_map_Yielded)
next
  case (Cons pg pages)
  obtain clk results cur where pg: "pg = (clk, results, cur)" by (cases pg)
  have "yielded (trace_of (get_all_deals_loop properties archived cb n after pc tot
                      (chain_calls (pg # pages) final @ rest) rt))
        = results @ yielded (trace_of (get_all_deals_loop properties archived cb n (JStr cur) (pc + 1)
                    (tot + int (length results)) (chain_calls pages final @ rest)
                    (fst (wait_for_rate_limit (fst clk) (snd clk) rt))))"
    by (simp add: pg chain_calls_Cons loop_on_linked_page [OF assms])
       (simp add: trace_of_def yielded_append waits_only_sleep yielded_map_Yielded)
  then show ?case by (simp add: Cons.IH pg)
qed

lemma chain_sent:
  assumes "cb \<longrightarrow> n \<noteq> 0"
  shows "sent (trace_of (get_all_deals_loop properties archived cb n after pc tot
                      (chain_calls pages final @ rest) rt))
           = request_params 100 after properties archived
             # map (\<lambda>(clk, results, cur). request_params 100 (JStr cur) properties archived) pages"
proof (induction pages arbitrary: after pc tot rt)
  case Nil
  show ?case
    by (simp add: chain_calls_Nil loop_on_final_page [OF assms] trace_of_def
        sent_append waits_only_sleep sent_map_Yielded)
next
  case (Cons pg pages)
  obtain clk results cur where pg: "pg = (clk, results, cur)" by (cases pg)
  have "sent (trace_of (get_all_deals_loop properties archived cb n after pc tot
                      (chain_calls (pg # pages) final @ rest) rt))
        = request_params 100 after properties archived
          # sent (trace_of (get_all_deals_loop properties archived cb n (JStr cur) (pc + 1)
                    (tot + int (length results)) (chain_calls pages final @ rest)
                    (fst (wait_for_rate_limit (fst clk) (snd clk) rt))))"
    by (simp add: pg chain_calls_Cons loop_on_linked_page [OF assms])
       (simp add: trace_of_def sent_append waits_only_sleep sent_map_Yielded)
  then show ?case by (simp add: Cons.IH pg)
qed












section \<open>The end of the extraction\<close>








section \<open>What the extraction yields\<close>

text \<open>
  Claim C3 (record normalization), as the code has it: \<^verbatim>\<open>get_all_deals\<close> yields
  each entry of each page's \<open>results\<close> exactly as the API returned it, in page order
  and in the order within the page; nothing is flattened or renamed. For a single page
  without \<open>paging.next\<close> it yields exactly that page's entries and ends.
\<close>

theorem yields_raw_entries:
  assumes "cb \<longrightarrow> n \<noteq> 0"
  shows "yielded (trace_of (get_all_deals properties archived cb n (chain_calls pages final) rt))
           = concat (map (\<lambda>(clk, results, cur). results) pages) @ snd final
         \<and> yielded (trace_of (get_all_deals properties archived cb n
                                  [page_call clk results None] rt)) = results
         \<and> result_of (get_all_deals properties archived cb n [page_call clk results None] rt)
             = Finished"
proof -
  have a: "yielded (trace_of (get_all_deals properties archived cb n (chain_calls pages final) rt))
           = concat (map (\<lambda>(clk, results, cur). results) pages) @ snd final"
    using chain_yielded [OF assms, of properties archived JNull 0 0 pages final "[]" rt]
    by (simp add: get_all_deals_def)
  have b: "yielded (trace_of (get_all_deals properties archived cb n
                                  [page_call clk results None] rt)) = results"
    using chain_yielded [OF assms, of properties archived JNull 0 0 "[]" "(clk, results)" "[]" rt]
    by (simp add: get_all_deals_def chain_calls_Nil)
  have c: "result_of (get_all_deals properties archived cb n [page_call clk results None] rt)
             = Finished"
    using chain_result [OF assms, of properties archived JNull 0 0 "[]" "(clk, results)" "[]" rt]
    by (simp add: get_all_deals_def chain_calls_Nil)
  from a b c show ?thesis by simp
qed

text \<open>The deal of the single-page example comes out with its nested \<open>properties\<close>.\<close>

theorem yields_raw_entries_witness:
  "yielded (trace_of (get_all_deals None False False 5 [page_call (0, 0) [deal_123] None] []))
     = [JObj [(''id'', JStr ''123''),
              (''properties'', JObj [(''dealname'', JStr ''Test Deal'')]),
              (''createdAt'', JStr ''2024-01-01T00:00:00Z''),
              (''updatedAt'', JStr ''2024-01-02T00:00:00Z''),
              (''archived'', JBool False)]]"
proof -
  have i: "False \<longrightarrow> (5::int) \<noteq> 0" by simp
  from yields_raw_entries [OF i, of None False "[]" "((0, 0), [])" "[]" "(0, 0)" "[deal_123]"]
  show ?thesis by (simp add: deal_123_def)
qed

text \<open>
  Claim C3 as stated says that the yielded record has the keys of \<open>properties\<close> at the
  top level. The record yielded for the example page is the raw entry: \<open>dealname\<close> is
  not one of its keys, and \<open>properties\<close> still is, holding the nested object.
\<close>

theorem yielded_record_is_nested:
  "yielded (trace_of (get_all_deals None False False 5 [page_call (0, 0) [deal_123] None] []))
     = [deal_123]
   \<and> py_contains ''dealname'' deal_123 = Inr False
   \<and> py_getitem deal_123 ''properties'' = Inr (JObj [(''dealname'', JStr ''Test Deal'')])"
  by (simp add: run_defs get_all_deals_loop.simps deal_123_def)

text \<open>
  Claim C5 (cursor chaining and order). For two pages linked by the cursor
  \<open>cursor123\<close>, with any records, any clock and any earlier rate-window state, the
  extraction yields the records of page 1 followed by those of page 2, sends exactly
  two requests, the first without an \<open>after\<close> parameter and the second with
  \<open>after = cursor123\<close>, and ends normally without using any further reply.
\<close>

theorem two_pages_cursor_chain:
  assumes "cb \<longrightarrow> n \<noteq> 0"
  shows "yielded (trace_of (get_all_deals properties archived cb n
            ([page_call clk1 results1 (Some ''cursor123''), page_call clk2 results2 None] @ rest) rt))
           = results1 @ results2
         \<and> sent (trace_of (get_all_deals properties archived cb n
            ([page_call clk1 results1 (Some ''cursor123''), page_call clk2 results2 None] @ rest) rt))
           = [request_params 100 JNull properties archived,
              request_params 100 (JStr ''cursor123'') properties archived]
         \<and> map_of (request_params 100 JNull properties archived) ''after'' = None
         \<and> map_of (request_params 100 (JStr ''cursor123'') properties archived) ''after''
             = Some (JStr ''cursor123'')
         \<and> result_of (get_all_deals properties archived cb n
            ([page_call clk1 results1 (Some ''cursor123''), page_call clk2 results2 None] @ rest) rt)
           = Finished"
proof -
  have calls: "[page_call clk1 results1 (Some ''cursor123''), page_call clk2 results2 None]
                 = chain_calls [(clk1, results1, ''cursor123'')] (clk2, results2)"
    by (simp add: chain_calls_def)
  have y: "yielded (trace_of (get_all_deals properties archived cb n
            ([page_call clk1 results1 (Some ''cursor123''), page_call clk2 results2 None] @ rest) rt))
           = results1 @ results2"
    unfolding calls get_all_deals_def by (simp add: chain_yielded [OF assms])
  have s: "sent (trace_of (get_all_deals properties archived cb n
            ([page_call clk1 results1 (Some ''cursor123''), page_call clk2 results2 None] @ rest) rt))
           = [request_params 100 JNull properties archived,
              request_params 100 (JStr ''cursor123'') properties archived]"
    unfolding calls get_all_deals_def by (simp add: chain_sent [OF assms])
  have r: "result_of (get_all_deals properties archived cb n
            ([page_call clk1 results1 (Some ''cursor123''), page_call clk2 results2 None] @ rest) rt)
           = Finished"
    unfolding calls get_all_deals_def by (simp add: chain_result [OF assms])
  have p: "map_of (request_params 100 JNull properties archived) ''after'' = None"
          "map_of (request_params 100 (JStr ''cursor123'') properties archived) ''after''
             = Some (JStr ''cursor123'')"
    by (simp_all add: request_params_def Let_def)
  from y s r p show ?thesis by simp
qed

text \<open>The two pages of the pagination example: deals 123 and 456, two requests.\<close>

theorem two_pages_cursor_chain_witness:
  "yielded (trace_of (get_all_deals None False False 5
      [page_call (0, 0) [deal_123] (Some ''cursor123''), page_call (1, 0) [deal_456] None] []))
     = [deal_123, deal_456]
   \<and> length (sent (trace_of (get_all_deals None False False 5
      [page_call (0, 0) [deal_123] (Some ''cursor123''), page_call (1, 0) [deal_456] None] []))) = 2
   \<and> map (\<lambda>params. map_of params ''after'') (sent (trace_of (get_all_deals None False False 5
      [page_call (0, 0) [deal_123] (Some ''cursor123''), page_call (1, 0) [deal_456] None] [])))
     = [None, Some (JStr ''cursor123'')]"
proof -
  have i: "False \<longrightarrow> (5::int) \<noteq> 0" by simp
  from two_pages_cursor_chain [OF i, of None False "(0, 0)" "[deal_123]" "(1, 0)" "[deal_456]" "[]" "[]"]
  show ?thesis by simp
qed

end
